theory Spec2Isabelle
  imports Main "HOL-Library.AList" "HOL-Library.Char_ord"
begin

section \<open>Byte strings as the source uses them\<close>

text \<open>
  The module is Python 2 code (\<^verbatim>\<open>str.translate(None, chars)\<close>, list-valued
  \<^verbatim>\<open>filter\<close>); its strings are byte strings, modelled as \<^typ>\<open>string\<close>.
\<close>

text \<open>\<^verbatim>\<open>s.split(c)\<close> for a one-character separator: never empty, one more piece
  than there are separators.\<close>

fun split_chr :: "char \<Rightarrow> string \<Rightarrow> string list" where
  "split_chr c [] = [[]]"
| "split_chr c (x # xs) =
     (if x = c then [] # split_chr c xs
      else (case split_chr c xs of w # ws \<Rightarrow> (x # w) # ws | [] \<Rightarrow> [[x]]))"

text \<open>\<^verbatim>\<open>s.split(ab)\<close> for a two-character separator, scanning left to right
  without overlap.\<close>

fun split_two :: "char \<Rightarrow> char \<Rightarrow> string \<Rightarrow> string list" where
  "split_two a b [] = [[]]"
| "split_two a b [x] = [[x]]"
| "split_two a b (x # y # r) =
     (if x = a \<and> y = b then [] # split_two a b r
      else (case split_two a b (y # r) of w # ws \<Rightarrow> (x # w) # ws | [] \<Rightarrow> [[x]]))"

text \<open>\<^verbatim>\<open>s.translate(None, chars)\<close>: delete every character of \<open>chars\<close>.\<close>

definition delete_chars :: "string \<Rightarrow> string \<Rightarrow> string" where
  "delete_chars chars s = filter (\<lambda>c. c \<notin> set chars) s"

text \<open>\<^verbatim>\<open>s.strip(chars)\<close>: drop leading and trailing characters of \<open>chars\<close>.\<close>

definition strip_chars :: "string \<Rightarrow> string \<Rightarrow> string" where
  "strip_chars chars s =
     rev (dropWhile (\<lambda>c. c \<in> set chars) (rev (dropWhile (\<lambda>c. c \<in> set chars) s)))"

text \<open>The whitespace of a byte string: space, tab, newline, vertical tab, form feed,
  carriage return.\<close>

definition whitespace :: string where
  "whitespace = [CHR '' '', CHR 0x09, CHR 0x0A, CHR 0x0B, CHR 0x0C, CHR 0x0D]"

definition is_space :: "char \<Rightarrow> bool" where
  "is_space c = (c \<in> set whitespace)"

text \<open>\<^verbatim>\<open>s.split()\<close>: the maximal runs of non-whitespace, none of them empty. The first
  argument is the run read so far, reversed.\<close>

fun tokens :: "string \<Rightarrow> string \<Rightarrow> string list" where
  "tokens w [] = (if w = [] then [] else [rev w])"
| "tokens w (c # cs) =
     (if is_space c then (if w = [] then tokens [] cs else rev w # tokens [] cs)
      else tokens (c # w) cs)"

definition split_ws :: "string \<Rightarrow> string list" where
  "split_ws s = tokens [] s"

text \<open>\<^verbatim>\<open>s.lower()\<close> on a byte string: the letters A to Z only.\<close>

definition lower_chr :: "char \<Rightarrow> char" where
  "lower_chr c =
     (if CHR ''A'' \<le> c \<and> c \<le> CHR ''Z'' then char_of (of_char c + (32::nat)) else c)"

definition lower :: "string \<Rightarrow> string" where
  "lower s = map lower_chr s"

text \<open>\<^verbatim>\<open>int(s)\<close> on a byte string, base ten: surrounding whitespace is dropped, one
  sign is allowed, then at least one digit and nothing else. \<open>None\<close> is the
  \<^verbatim>\<open>ValueError\<close>.\<close>

definition digit_of :: "char \<Rightarrow> int option" where
  "digit_of c =
     (if CHR ''0'' \<le> c \<and> c \<le> CHR ''9'' then Some (int (of_char c) - 48) else None)"

fun digits_val :: "int \<Rightarrow> string \<Rightarrow> int option" where
  "digits_val acc [] = Some acc"
| "digits_val acc (c # cs) =
     (case digit_of c of None \<Rightarrow> None | Some d \<Rightarrow> digits_val (10 * acc + d) cs)"

definition unsigned_int :: "string \<Rightarrow> int option" where
  "unsigned_int s = (if s = [] then None else digits_val 0 s)"

definition py_int :: "string \<Rightarrow> int option" where
  "py_int s =
     (case strip_chars whitespace s of
        [] \<Rightarrow> None
      | c # cs \<Rightarrow>
          if c = CHR ''-'' then map_option uminus (unsigned_int cs)
          else if c = CHR ''+'' then unsigned_int cs
          else unsigned_int (c # cs))"

section \<open>Constants of the module\<close>

definition DEFAULT_TAG :: string where "DEFAULT_TAG = ''maid_offhours''"

definition TZ_ALIASES :: "(string \<times> string) list" where
  "TZ_ALIASES =
     [(''pdt'', ''America/Los_Angeles''), (''pt'', ''America/Los_Angeles''),
      (''pst'', ''America/Los_Angeles''), (''est'', ''America/New_York''),
      (''edt'', ''America/New_York''), (''et'', ''America/New_York''),
      (''cst'', ''America/Chicago''), (''cdt'', ''America/Chicago''),
      (''ct'', ''America/Chicago''), (''mt'', ''America/Denver''),
      (''gmt'', ''Europe/London''), (''gt'', ''Europe/London'')]"

definition DEFAULT_OFFHOUR :: int where "DEFAULT_OFFHOUR = 19"
definition DEFAULT_ONHOUR :: int where "DEFAULT_ONHOUR = 7"
definition DEFAULT_TZ :: string where "DEFAULT_TZ = ''et''"

definition VALID_DAYS :: "string list" where
  "VALID_DAYS = [''m'', ''t'', ''w'', ''h'', ''f'', ''s'', ''u'']"

definition VALID_HOURS :: "int list" where
  "VALID_HOURS = [0 .. 23]"

text \<open>\<^verbatim>\<open>xs.index(x)\<close>: the first position of \<open>x\<close>; \<open>None\<close> is the
  \<^verbatim>\<open>ValueError\<close> for an absent element.\<close>

fun py_index :: "'a list \<Rightarrow> 'a \<Rightarrow> nat option" where
  "py_index [] x = None"
| "py_index (y # ys) x = (if x = y then Some 0 else map_option Suc (py_index ys x))"

section \<open>ScheduleParser\<close>

text \<open>One rule of a custom schedule: \<^verbatim>\<open>{'days': [...], 'hour': n}\<close>.\<close>

record hour_rule =
  days :: "string list"
  hour :: int

text \<open>A value stored in the schedule dictionary: the text after \<open>=\<close>, or, under the
  keys \<open>on\<close> and \<open>off\<close>, the list of rules.\<close>

datatype sval = SStr string | SHours "hour_rule list"

text \<open>The schedule dictionary, with its keys distinct; \<open>None\<close> in place of a
  schedule is the source's \<^verbatim>\<open>None\<close> for an invalid tag.\<close>

type_synonym schedule = "(string \<times> sval) list"

definition is_valid_hour_range :: "int \<Rightarrow> bool" where
  "is_valid_hour_range h = (h \<in> set VALID_HOURS)"

definition is_valid_day :: "string \<Rightarrow> bool" where
  "is_valid_day day = (day \<in> set VALID_DAYS)"

text \<open>\<open>expand_day_range\<close>: \<open>None\<close> is the \<^verbatim>\<open>ValueError\<close>; a text that is neither one
  character nor two parts around a dash gives the empty list without raising.\<close>

definition expand_day_range :: "string \<Rightarrow> string list option" where
  "expand_day_range ds =
     (if length ds = 1 then (if \<not> is_valid_day ds then None else Some [ds])
      else (case split_chr CHR ''-'' ds of
              [a, b] \<Rightarrow>
                if \<not> is_valid_day a then None
                else if \<not> is_valid_day b then None
                else (case py_index VALID_DAYS a of
                        None \<Rightarrow> None
                      | Some i \<Rightarrow>
                          (case py_index VALID_DAYS b of
                             None \<Rightarrow> None
                           | Some j \<Rightarrow> Some (drop i (take (j + 1) VALID_DAYS))))
            | _ \<Rightarrow> Some []))"

text \<open>The body of the loop of \<open>parse_custom_hours\<close> for one group: \<open>None\<close> is the
  early \<^verbatim>\<open>return []\<close>.\<close>

definition parse_group :: "string \<Rightarrow> hour_rule option" where
  "parse_group g =
     (case split_chr CHR '','' (delete_chars ''()'' g) of
        [d, h] \<Rightarrow>
          (case py_int h of
             None \<Rightarrow> None
           | Some n \<Rightarrow>
               if \<not> is_valid_hour_range n then None
               else (case expand_day_range d of
                       None \<Rightarrow> None
                     | Some ds \<Rightarrow> Some \<lparr>days = ds, hour = n\<rparr>))
      | _ \<Rightarrow> None)"

fun custom_hours_loop :: "hour_rule list \<Rightarrow> string list \<Rightarrow> hour_rule list" where
  "custom_hours_loop parsed [] = parsed"
| "custom_hours_loop parsed (g # gs) =
     (case parse_group g of
        None \<Rightarrow> []
      | Some r \<Rightarrow> custom_hours_loop (parsed @ [r]) gs)"

definition parse_custom_hours :: "string \<Rightarrow> hour_rule list" where
  "parse_custom_hours hours =
     custom_hours_loop [] (split_two CHR '','' CHR ''('' (delete_chars ''[]'' hours))"

definition is_valid_hour :: "hour_rule \<Rightarrow> bool" where
  "is_valid_hour r = (if length (days r) \<le> 0 then False else True)"

text \<open>The parser stores a rule list under \<open>on\<close> and \<open>off\<close>, so the text case is
  never reached; it is given the answer of a list with a rule that fails.\<close>

definition is_valid_hours :: "sval \<Rightarrow> bool" where
  "is_valid_hours v =
     (case v of
        SHours hs \<Rightarrow> (if length hs \<le> 0 then False else list_all is_valid_hour hs)
      | SStr s \<Rightarrow> False)"

definition has_key :: "schedule \<Rightarrow> string \<Rightarrow> bool" where
  "has_key sched k = (map_of sched k \<noteq> None)"

definition is_valid :: "schedule \<Rightarrow> bool" where
  "is_valid sched =
     (if has_key sched ''off'' \<and> \<not> has_key sched ''on'' then False
      else if has_key sched ''on'' \<and> \<not> has_key sched ''off'' then False
      else if has_key sched ''off'' \<and> has_key sched ''on'' then
        (if \<not> is_valid_hours (the (map_of sched ''off'')) then False
         else if \<not> is_valid_hours (the (map_of sched ''on'')) then False
         else True)
      else True)"

text \<open>The body of the loop over the pieces of the tag value.\<close>

definition parse_piece :: "schedule \<Rightarrow> string \<Rightarrow> schedule" where
  "parse_piece sched piece =
     (case split_chr CHR ''='' piece of
        [key, val] \<Rightarrow>
          AList.update key
            (if key = ''on'' \<or> key = ''off'' then SHours (parse_custom_hours val)
             else SStr val)
            sched
      | _ \<Rightarrow> sched)"

text \<open>\<open>parse\<close> from the construction of the dictionary to the validation: what a
  call computes when the cache does not hold the tag value.\<close>

definition parse_fresh :: "string \<Rightarrow> schedule option" where
  "parse_fresh tag_value =
     (let sched = fold (\<lambda>piece s. parse_piece s piece) (split_chr CHR '';'' tag_value) [];
          sched = (if \<not> has_key sched ''tz'' then AList.update ''tz'' (SStr DEFAULT_TZ) sched
                   else sched)
      in if \<not> is_valid sched then None else Some sched)"

text \<open>The class attribute \<^verbatim>\<open>cache\<close>, shared by every parser object, passed in and
  returned.\<close>

type_synonym cache = "(string \<times> schedule option) list"

definition parse :: "cache \<Rightarrow> string \<Rightarrow> schedule option \<times> cache" where
  "parse c tag_value =
     (case map_of c tag_value of
        Some r \<Rightarrow> (r, c)
      | None \<Rightarrow> (let r = parse_fresh tag_value in (r, AList.update tag_value r c)))"

section \<open>The clock, the zone database and the policy options\<close>

text \<open>The exceptions that can leave the filter.\<close>

datatype py_error = ValueError | AttributeError | TypeError

text \<open>A \<^verbatim>\<open>datetime\<close> without its zone: the date as its proleptic Gregorian ordinal
  (\<^verbatim>\<open>toordinal()\<close>) and the time of day. Two values of one zone compare by these
  fields.\<close>

record datetime =
  dt_ordinal :: int
  dt_hour :: int
  dt_minute :: int
  dt_second :: int
  dt_microsecond :: int

text \<open>\<^verbatim>\<open>weekday()\<close>: Monday is 0, Sunday is 6.\<close>

definition weekday :: "datetime \<Rightarrow> int" where
  "weekday t = (dt_ordinal t + 6) mod 7"

text \<open>\<^verbatim>\<open>replace\<close> checks the fields it is given.\<close>

definition replace_hour :: "datetime \<Rightarrow> int \<Rightarrow> py_error + datetime" where
  "replace_hour t h =
     (if 0 \<le> h \<and> h \<le> 23 then Inr (t\<lparr>dt_hour := h\<rparr>) else Inl ValueError)"

definition replace_time :: "datetime \<Rightarrow> int \<Rightarrow> int \<Rightarrow> py_error + datetime" where
  "replace_time t h m =
     (if 0 \<le> h \<and> h \<le> 23 \<and> 0 \<le> m \<and> m \<le> 59
      then Inr (t\<lparr>dt_hour := h, dt_minute := m, dt_second := 0, dt_microsecond := 0\<rparr>)
      else Inl ValueError)"

definition truncate_hour :: "datetime \<Rightarrow> datetime" where
  "truncate_hour t = t\<lparr>dt_minute := 0, dt_second := 0, dt_microsecond := 0\<rparr>"

datatype tzinfo = TZ string

text \<open>What the filter reads from outside: the zone database (\<^verbatim>\<open>zoneinfo.gettz\<close>) and
  the system clock, which one evaluation reads twice: in \<open>process_current_time\<close> and
  again in \<open>get_sentinel_time\<close>.\<close>

record env =
  gettz :: "string \<Rightarrow> tzinfo option"
  now_first :: "tzinfo \<Rightarrow> datetime"
  now_second :: "tzinfo \<Rightarrow> datetime"

text \<open>The policy's \<^verbatim>\<open>data\<close> dictionary: each option present or absent.\<close>

record options =
  opt_tag :: "string option"
  opt_default_tz :: "string option"
  opt_default_dash_tz :: "string option"
  opt_skew :: "int option"
  opt_weekends :: "bool option"
  opt_opt_out :: "bool option"
  opt_hour :: "int option"
  opt_minute :: "int option"
  opt_offhour :: "int option"
  opt_onhour :: "int option"

text \<open>The three filters: the base class and its two subclasses.\<close>

datatype variant = Time | OffHour | OnHour

text \<open>A resource, as far as the filter reads it: its \<^verbatim>\<open>Tags\<close>, if it has any, as
  the pairs of \<^verbatim>\<open>Key\<close> and \<^verbatim>\<open>Value\<close>.\<close>

record resource =
  Tags :: "(string \<times> string) list option"

section \<open>The filter\<close>

text \<open>The attributes set by \<^verbatim>\<open>__init__\<close>.\<close>

definition skew :: "options \<Rightarrow> int" where
  "skew d = (case opt_skew d of None \<Rightarrow> 0 | Some k \<Rightarrow> k)"

definition weekends :: "options \<Rightarrow> bool" where
  "weekends d = (case opt_weekends d of None \<Rightarrow> False | Some b \<Rightarrow> b)"

definition opt_out :: "options \<Rightarrow> bool" where
  "opt_out d = (case opt_opt_out d of None \<Rightarrow> False | Some b \<Rightarrow> b)"

definition tag_map_of :: "resource \<Rightarrow> (string \<times> string) list" where
  "tag_map_of i =
     fold (\<lambda>t m. AList.update (lower (fst t)) (snd t) m)
       (case Tags i of None \<Rightarrow> [] | Some ts \<Rightarrow> ts) []"

text \<open>\<open>get_tag_parts\<close>: \<open>None\<close> in the first component is the source's \<^verbatim>\<open>False\<close>.\<close>

definition get_tag_parts ::
  "options \<Rightarrow> resource \<Rightarrow> string list option \<times> (string \<times> string) list" where
  "get_tag_parts d i =
     (let tag_key = lower (case opt_tag d of None \<Rightarrow> DEFAULT_TAG | Some t \<Rightarrow> t);
          tag_map = tag_map_of i
      in case map_of tag_map tag_key of
           None \<Rightarrow> (None, tag_map)
         | Some v \<Rightarrow>
             (let val = lower v;
                  val = strip_chars [CHR 0x22] (strip_chars [CHR 0x27] val)
              in (Some (filter (\<lambda>p. p \<noteq> []) (split_ws val)), tag_map)))"

text \<open>\<open>get_local_tz\<close>: \<open>Inr None\<close> is the unknown zone; the unpacking of the split
  raises when the part has not exactly one \<open>=\<close>.\<close>

definition get_local_tz :: "env \<Rightarrow> options \<Rightarrow> string list \<Rightarrow> py_error + tzinfo option" where
  "get_local_tz e d parts =
     (case (case find (\<lambda>p. take 3 p = ''tz='') parts of
              None \<Rightarrow>
                Inr (case opt_default_tz d of
                       None \<Rightarrow> (case opt_default_dash_tz d of None \<Rightarrow> DEFAULT_TZ | Some z \<Rightarrow> z)
                     | Some z \<Rightarrow>
                         if z \<noteq> [] then z
                         else (case opt_default_dash_tz d of None \<Rightarrow> DEFAULT_TZ | Some z' \<Rightarrow> z'))
            | Some p \<Rightarrow>
                (case split_chr CHR ''='' p of [_, z] \<Rightarrow> Inr z | _ \<Rightarrow> Inl ValueError)) of
        Inl err \<Rightarrow> Inl err
      | Inr tz_spec \<Rightarrow>
          Inr (gettz e (case map_of TZ_ALIASES tz_spec of None \<Rightarrow> tz_spec | Some z \<Rightarrow> z)))"

text \<open>The truth value of \<^verbatim>\<open>parts.get(key)\<close>.\<close>

definition truthy :: "sval option \<Rightarrow> bool" where
  "truthy v = (case v of None \<Rightarrow> False | Some (SStr s) \<Rightarrow> s \<noteq> [] | Some (SHours hs) \<Rightarrow> hs \<noteq> [])"

definition is_custom :: "schedule \<Rightarrow> bool" where
  "is_custom parts =
     (if length parts = 3 \<and> truthy (map_of parts ''on'') \<and> truthy (map_of parts ''off'')
      then True else False)"

text \<open>The two loops of \<open>get_custom_time\<close>, over the days of a rule and over the rules.\<close>

fun days_loop :: "datetime \<Rightarrow> int \<Rightarrow> string list \<Rightarrow> py_error + bool" where
  "days_loop now h [] = Inr False"
| "days_loop now h (d # ds) =
     (case py_index VALID_DAYS d of
        None \<Rightarrow> Inl ValueError
      | Some k \<Rightarrow>
          if weekday now = int k \<and> dt_hour now = h then Inr True
          else days_loop now h ds)"

fun rules_loop :: "datetime \<Rightarrow> hour_rule list \<Rightarrow> py_error + bool" where
  "rules_loop now [] = Inr False"
| "rules_loop now (item # items) =
     (case days_loop now (hour item) (days item) of
        Inl err \<Rightarrow> Inl err
      | Inr True \<Rightarrow> Inr True
      | Inr False \<Rightarrow> rules_loop now items)"

text \<open>\<open>get_custom_time\<close>: the class name picks the list. Under \<open>on\<close> and \<open>off\<close> the
  parser stores rule lists only; iterating anything else is a \<^verbatim>\<open>TypeError\<close>.\<close>

definition custom_rules :: "sval option \<Rightarrow> py_error + hour_rule list" where
  "custom_rules v = (case v of Some (SHours hs) \<Rightarrow> Inr hs | _ \<Rightarrow> Inl TypeError)"

definition get_custom_time :: "variant \<Rightarrow> datetime \<Rightarrow> schedule \<Rightarrow> py_error + bool" where
  "get_custom_time v now parts =
     (case v of
        OnHour \<Rightarrow>
          (case custom_rules (map_of parts ''on'') of
             Inl err \<Rightarrow> Inl err | Inr time \<Rightarrow> rules_loop now time)
      | OffHour \<Rightarrow>
          (case custom_rules (map_of parts ''off'') of
             Inl err \<Rightarrow> Inl err | Inr time \<Rightarrow> rules_loop now time)
      | Time \<Rightarrow> Inr False)"

text \<open>\<open>get_sentinel_time\<close> of the base class, and the overriding methods of the two
  subclasses, which call it first.\<close>

definition base_sentinel_time :: "options \<Rightarrow> env \<Rightarrow> tzinfo \<Rightarrow> py_error + datetime" where
  "base_sentinel_time d e tz =
     replace_time (now_second e tz)
       (case opt_hour d of None \<Rightarrow> 0 | Some h \<Rightarrow> h)
       (case opt_minute d of None \<Rightarrow> 0 | Some m \<Rightarrow> m)"

definition get_sentinel_time :: "variant \<Rightarrow> options \<Rightarrow> env \<Rightarrow> tzinfo \<Rightarrow> py_error + datetime" where
  "get_sentinel_time v d e tz =
     (case base_sentinel_time d e tz of
        Inl err \<Rightarrow> Inl err
      | Inr t \<Rightarrow>
          (case v of
             Time \<Rightarrow> Inr t
           | OffHour \<Rightarrow>
               replace_hour t (case opt_offhour d of None \<Rightarrow> DEFAULT_OFFHOUR | Some h \<Rightarrow> h)
           | OnHour \<Rightarrow>
               replace_hour t (case opt_onhour d of None \<Rightarrow> DEFAULT_ONHOUR | Some h \<Rightarrow> h)))"

text \<open>The loop over \<^verbatim>\<open>range(1, self.skew + 1)\<close>: each round replaces the hour of the
  sentinel by the first sentinel's hour plus the round's number.\<close>

fun skew_loop :: "datetime \<Rightarrow> int \<Rightarrow> datetime \<Rightarrow> int list \<Rightarrow> py_error + bool" where
  "skew_loop sentinel h now [] = Inr False"
| "skew_loop sentinel h now (k # ks) =
     (case replace_hour sentinel (h + k) of
        Inl err \<Rightarrow> Inl err
      | Inr sentinel' \<Rightarrow>
          if sentinel' = now then Inr True else skew_loop sentinel' h now ks)"

text \<open>The \<^verbatim>\<open>try\<close> block of \<open>process_current_time\<close>: an empty token list
  (\<^verbatim>\<open>IndexError\<close>) and an invalid tag both fall back to parsing the empty text.\<close>

definition parse_or_default :: "cache \<Rightarrow> string list \<Rightarrow> schedule option \<times> cache" where
  "parse_or_default c parts =
     (case parts of
        [] \<Rightarrow> parse c []
      | p # _ \<Rightarrow>
          (case parse c p of
             (None, c') \<Rightarrow> parse c' []
           | (Some parsed, c') \<Rightarrow> (Some parsed, c')))"

text \<open>The text \<^verbatim>\<open>'tz=%s' % parsed.get('tz')\<close>. The parser stores text under \<open>tz\<close>; the
  other two cases are never reached after a parse (the list case stands for the printed
  list).\<close>

definition tz_part :: "schedule \<Rightarrow> string" where
  "tz_part parsed =
     ''tz='' @ (case map_of parsed ''tz'' of
                  Some (SStr z) \<Rightarrow> z
                | Some (SHours hs) \<Rightarrow> ''[]''
                | None \<Rightarrow> ''None'')"

definition sentinel_path ::
  "variant \<Rightarrow> options \<Rightarrow> env \<Rightarrow> tzinfo \<Rightarrow> datetime \<Rightarrow> py_error + bool" where
  "sentinel_path v d e tz now =
     (case get_sentinel_time v d e tz of
        Inl err \<Rightarrow> Inl err
      | Inr sentinel \<Rightarrow>
          if sentinel = now then Inr True
          else if skew d = 0 then Inr False
          else skew_loop sentinel (dt_hour sentinel) now [1 .. skew d])"

definition process_current_time ::
  "variant \<Rightarrow> options \<Rightarrow> env \<Rightarrow> cache \<Rightarrow> string list \<Rightarrow> (py_error + bool) \<times> cache" where
  "process_current_time v d e c parts =
     (case parse_or_default c parts of
        (None, c') \<Rightarrow> (Inl AttributeError, c')
      | (Some parsed, c') \<Rightarrow>
          (case get_local_tz e d [tz_part parsed] of
             Inl err \<Rightarrow> (Inl err, c')
           | Inr None \<Rightarrow> (Inr False, c')
           | Inr (Some tz) \<Rightarrow>
               (let now = truncate_hour (now_first e tz)
                in if \<not> weekends d \<and> weekday now \<in> {5, 6} then (Inr False, c')
                   else if is_custom parsed then (get_custom_time v now parsed, c')
                   else (sentinel_path v d e tz now, c'))))"

text \<open>\<^verbatim>\<open>__call__\<close>.\<close>

definition filter_call ::
  "variant \<Rightarrow> options \<Rightarrow> env \<Rightarrow> cache \<Rightarrow> resource \<Rightarrow> (py_error + bool) \<times> cache" where
  "filter_call v d e c i =
     (case fst (get_tag_parts d i) of
        None \<Rightarrow>
          if opt_out d then process_current_time v d e c []
          else (Inr False, c)
      | Some parts \<Rightarrow>
          if ''off'' \<in> set parts then (Inr False, c)
          else process_current_time v d e c parts)"

section \<open>Invariants and example inputs\<close>

text \<open>The cache holds, for each tag value it has seen, what parsing that value gives.
  The empty cache of a fresh process satisfies this, and \<open>parse\<close> keeps it.\<close>

definition cache_ok :: "cache \<Rightarrow> bool" where
  "cache_ok c = list_all (\<lambda>kr. snd kr = parse_fresh (fst kr)) c"

text \<open>The cache after parsing a list of tag values, one after the other.\<close>

definition parse_many :: "cache \<Rightarrow> string list \<Rightarrow> cache" where
  "parse_many c ss = fold (\<lambda>s c'. snd (parse c' s)) ss c"

text \<open>What the parser stores: text without \<open>=\<close> under every key but \<open>on\<close> and \<open>off\<close>,
  and under these two a rule list whose days are day codes.\<close>

definition entry_ok :: "string \<times> sval \<Rightarrow> bool" where
  "entry_ok kv =
     (case snd kv of
        SStr z \<Rightarrow> fst kv \<noteq> ''on'' \<and> fst kv \<noteq> ''off'' \<and> CHR ''='' \<notin> set z
      | SHours hs \<Rightarrow>
          (fst kv = ''on'' \<or> fst kv = ''off'') \<and>
          list_all (\<lambda>r. set (days r) \<subseteq> set VALID_DAYS) hs)"

text \<open>The zone identifier a zone text stands for: its alias, or itself.\<close>

definition alias_of :: "string \<Rightarrow> string" where
  "alias_of z = (case map_of TZ_ALIASES z of None \<Rightarrow> z | Some z' \<Rightarrow> z')"

text \<open>A policy with no option set.\<close>

definition no_options :: options where
  "no_options =
     \<lparr>opt_tag = None, opt_default_tz = None, opt_default_dash_tz = None, opt_skew = None,
      opt_weekends = None, opt_opt_out = None, opt_hour = None, opt_minute = None,
      opt_offhour = None, opt_onhour = None\<rparr>"

text \<open>A zone database that knows the zones of the alias table, and a clock that reads,
  in every zone and both times, the given day and hour, 12 minutes past.\<close>

definition known_zone :: "string \<Rightarrow> tzinfo option" where
  "known_zone z = (if z \<in> set (map snd TZ_ALIASES) then Some (TZ z) else None)"

definition clock_at :: "int \<Rightarrow> int \<Rightarrow> env" where
  "clock_at day h =
     \<lparr>gettz = known_zone,
      now_first = (\<lambda>z. \<lparr>dt_ordinal = day, dt_hour = h, dt_minute = 12, dt_second = 3,
                           dt_microsecond = 5\<rparr>),
      now_second = (\<lambda>z. \<lparr>dt_ordinal = day, dt_hour = h, dt_minute = 12, dt_second = 3,
                            dt_microsecond = 7\<rparr>)\<rparr>"

text \<open>Monday 30 May 2016, as an ordinal.\<close>

definition monday :: int where "monday = 736114"

definition tagged :: "string \<Rightarrow> resource" where
  "tagged v = \<lparr>Tags = Some [(''maid_offhours'', v)]\<rparr>"

text \<open>The schedule that \<open>process_current_time\<close> works with when the cache is sound:
  the parse of the first token, or the parse of the empty text when there is no token or
  the first one is invalid.\<close>

definition effective_schedule :: "string list \<Rightarrow> schedule" where
  "effective_schedule parts =
     (case parts of
        [] \<Rightarrow> [(''tz'', SStr DEFAULT_TZ)]
      | p # _ \<Rightarrow> (case parse_fresh p of None \<Rightarrow> [(''tz'', SStr DEFAULT_TZ)] | Some s \<Rightarrow> s))"

text \<open>The text stored under \<open>tz\<close>.\<close>

definition schedule_tz :: "schedule \<Rightarrow> string" where
  "schedule_tz parsed = (case map_of parsed ''tz'' of Some (SStr z) \<Rightarrow> z | _ \<Rightarrow> [])"



text \<open>A clock that reads 19:30 in Los Angeles and 22:30 everywhere else, on the Monday.\<close>

definition two_zone_clock :: env where
  "two_zone_clock =
     \<lparr>gettz = known_zone,
      now_first = (\<lambda>z. \<lparr>dt_ordinal = monday,
                           dt_hour = (if z = TZ ''America/Los_Angeles'' then 19 else 22),
                           dt_minute = 30, dt_second = 0, dt_microsecond = 0\<rparr>),
      now_second = (\<lambda>z. \<lparr>dt_ordinal = monday,
                            dt_hour = (if z = TZ ''America/Los_Angeles'' then 19 else 22),
                            dt_minute = 30, dt_second = 0, dt_microsecond = 1\<rparr>)\<rparr>"

text \<open>The rule list stored under a key of the schedule, empty when there is none.\<close>

definition rules_of :: "schedule \<Rightarrow> string \<Rightarrow> hour_rule list" where
  "rules_of parsed k = (case map_of parsed k of Some (SHours hs) \<Rightarrow> hs | _ \<Rightarrow> [])"

text \<open>The day code of the current day, by the position of the weekday in the week, and
  the match of a custom rule list: some rule names today's code and has the current
  hour.\<close>

definition today_code :: "datetime \<Rightarrow> string" where
  "today_code now = VALID_DAYS ! nat (weekday now)"

definition custom_match :: "datetime \<Rightarrow> hour_rule list \<Rightarrow> bool" where
  "custom_match now rules =
     list_ex (\<lambda>r. today_code now \<in> set (days r) \<and> hour r = dt_hour now) rules"

text \<open>The groups of an \<open>on=\<close> or \<open>off=\<close> value as \<open>parse_custom_hours\<close> cuts them, and
  the fields of one group.\<close>

definition groups_of :: "string \<Rightarrow> string list" where
  "groups_of v = split_two CHR '','' CHR ''('' (delete_chars ''[]'' v)"

definition group_fields :: "string \<Rightarrow> string list" where
  "group_fields g = split_chr CHR '','' (delete_chars ''()'' g)"

text \<open>A days text is known when it is one day code or two day codes around a dash. A
  group is malformed when it has not exactly two fields, when its hour is not a number
  or lies outside 0 to 23, or when its days text is not known.\<close>

definition days_known :: "string \<Rightarrow> bool" where
  "days_known d =
     (is_valid_day d \<or>
      (case split_chr CHR ''-'' d of [a, b] \<Rightarrow> is_valid_day a \<and> is_valid_day b | _ \<Rightarrow> False))"

definition malformed_group :: "string \<Rightarrow> bool" where
  "malformed_group g =
     (case group_fields g of
        [d, h] \<Rightarrow>
          (case py_int h of None \<Rightarrow> True | Some n \<Rightarrow> n < 0 \<or> 23 < n \<or> \<not> days_known d)
      | _ \<Rightarrow> True)"

text \<open>A range of two day codes whose first code comes strictly after the second in the
  week.\<close>

definition reversed_range :: "string \<Rightarrow> bool" where
  "reversed_range d =
     (case split_chr CHR ''-'' d of
        [a, b] \<Rightarrow>
          (case py_index VALID_DAYS a of
             None \<Rightarrow> False
           | Some i \<Rightarrow> (case py_index VALID_DAYS b of None \<Rightarrow> False | Some j \<Rightarrow> j < i))
      | _ \<Rightarrow> False)"

text \<open>The value of the last piece of the form \<open>k=v\<close> among the pieces of a tag value:
  the one the dictionary keeps under \<open>k\<close>.\<close>

fun last_value :: "string \<Rightarrow> string list \<Rightarrow> string option" where
  "last_value k [] = None"
| "last_value k (p # ps) =
     (case last_value k ps of
        Some v \<Rightarrow> Some v
      | None \<Rightarrow>
          (case split_chr CHR ''='' p of
             [k', v] \<Rightarrow> if k' = k then Some v else None
           | _ \<Rightarrow> None))"

text \<open>A group that ends the loop of \<open>parse_custom_hours\<close> early, or leaves a rule
  without days.\<close>

definition group_fails :: "string \<Rightarrow> bool" where
  "group_fails g = (case parse_group g of None \<Rightarrow> True | Some r \<Rightarrow> days r = [])"

text \<open>The tokens an evaluation works with: those of the tag value, none when the tag is
  absent.\<close>

definition tag_tokens :: "options \<Rightarrow> resource \<Rightarrow> string list" where
  "tag_tokens d i = (case fst (get_tag_parts d i) of None \<Rightarrow> [] | Some parts \<Rightarrow> parts)"


text \<open>A clock that reads Sunday 5 June 2016, 23:30, in Los Angeles and the Monday after
  it, 02:30, everywhere else.\<close>

definition sunday_in_los_angeles :: env where
  "sunday_in_los_angeles =
     \<lparr>gettz = known_zone,
      now_first = (\<lambda>z. if z = TZ ''America/Los_Angeles''
                         then \<lparr>dt_ordinal = 736120, dt_hour = 23, dt_minute = 30,
                               dt_second = 0, dt_microsecond = 0\<rparr>
                         else \<lparr>dt_ordinal = 736121, dt_hour = 2, dt_minute = 30,
                               dt_second = 0, dt_microsecond = 0\<rparr>),
      now_second = (\<lambda>z. if z = TZ ''America/Los_Angeles''
                          then \<lparr>dt_ordinal = 736120, dt_hour = 23, dt_minute = 30,
                                dt_second = 0, dt_microsecond = 1\<rparr>
                          else \<lparr>dt_ordinal = 736121, dt_hour = 2, dt_minute = 30,
                                dt_second = 0, dt_microsecond = 1\<rparr>)\<rparr>"

section \<open>Splitting\<close>

lemma split_chr_not_Nil: "split_chr c s \<noteq> []"
  by (induction s) (auto split: list.splits)

lemma split_chr_pieces_free: "w \<in> set (split_chr c s) \<Longrightarrow> c \<notin> set w"
proof (induction s arbitrary: w)
  case Nil
  then show ?case by simp
next
  case (Cons x xs)
  show ?case
  proof (cases "x = c")
    case True
    with Cons show ?thesis by auto
  next
    case False
    obtain u us where u: "split_chr c xs = u # us"
      using split_chr_not_Nil [of c xs] by (cases "split_chr c xs") auto
    with Cons False show ?thesis by auto
  qed
qed

lemma split_chr_free: "c \<notin> set s \<Longrightarrow> split_chr c s = [s]"
  by (induction s) auto

section \<open>The cache\<close>

lemma list_all_update:
  "P (k, v) \<Longrightarrow> list_all P al \<Longrightarrow> list_all P (AList.update k v al)"
  by (induction al) auto

lemma cache_ok_lookup: "cache_ok c \<Longrightarrow> map_of c s = Some r \<Longrightarrow> r = parse_fresh s"
proof -
  assume ok: "cache_ok c" and look: "map_of c s = Some r"
  from look have "(s, r) \<in> set c" by (rule map_of_SomeD)
  with ok show ?thesis by (fastforce simp: cache_ok_def list_all_iff)
qed

lemma cache_ok_parse_fst: "cache_ok c \<Longrightarrow> fst (parse c s) = parse_fresh s"
  by (auto simp: parse_def Let_def split: option.splits dest: cache_ok_lookup)

lemma cache_ok_parse_snd: "cache_ok c \<Longrightarrow> cache_ok (snd (parse c s))"
  by (auto simp: parse_def Let_def cache_ok_def split: option.splits intro: list_all_update)

lemma cache_ok_parse_many: "cache_ok c \<Longrightarrow> cache_ok (parse_many c ss)"
  unfolding parse_many_def
  by (induction ss arbitrary: c) (auto intro: cache_ok_parse_snd)

lemma cache_ok_Nil: "cache_ok []"
  by (simp add: cache_ok_def)

lemma parse_again: "parse (snd (parse c s)) s = (fst (parse c s), snd (parse c s))"
  by (auto simp: parse_def Let_def update_conv' split: option.splits)

lemma parse_fresh_empty: "parse_fresh [] = Some [(''tz'', SStr DEFAULT_TZ)]"
  by (simp add: parse_fresh_def parse_piece_def has_key_def is_valid_def Let_def)

section \<open>What the parser stores\<close>

lemma expand_day_range_valid:
  "expand_day_range ds = Some xs \<Longrightarrow> set xs \<subseteq> set VALID_DAYS"
  by (auto simp: expand_day_range_def is_valid_day_def
      split: if_splits list.splits option.splits dest: in_set_dropD in_set_takeD)

lemma parse_group_valid:
  "parse_group g = Some r \<Longrightarrow> set (days r) \<subseteq> set VALID_DAYS"
  by (auto simp: parse_group_def split: list.splits option.splits if_splits
      dest!: expand_day_range_valid)

lemma custom_hours_loop_valid:
  "list_all (\<lambda>r. set (days r) \<subseteq> set VALID_DAYS) acc \<Longrightarrow>
   list_all (\<lambda>r. set (days r) \<subseteq> set VALID_DAYS) (custom_hours_loop acc gs)"
proof (induction gs arbitrary: acc)
  case Nil
  then show ?case by simp
next
  case (Cons g gs)
  show ?case
  proof (cases "parse_group g")
    case None
    then show ?thesis by simp
  next
    case (Some r)
    from Some have "set (days r) \<subseteq> set VALID_DAYS" by (rule parse_group_valid)
    with Cons.prems have "list_all (\<lambda>r. set (days r) \<subseteq> set VALID_DAYS) (acc @ [r])"
      by simp
    from Cons.IH [OF this] Some show ?thesis by simp
  qed
qed

lemma parse_custom_hours_valid:
  "list_all (\<lambda>r. set (days r) \<subseteq> set VALID_DAYS) (parse_custom_hours v)"
  unfolding parse_custom_hours_def by (rule custom_hours_loop_valid) simp

lemma parse_piece_ok: "list_all entry_ok sched \<Longrightarrow> list_all entry_ok (parse_piece sched p)"
proof -
  assume ok: "list_all entry_ok sched"
  show ?thesis
  proof (cases "\<exists>k v. split_chr CHR ''='' p = [k, v]")
    case True
    then obtain k v where kv: "split_chr CHR ''='' p = [k, v]" by blast
    then have "v \<in> set (split_chr CHR ''='' p)" by simp
    then have free: "CHR ''='' \<notin> set v" by (rule split_chr_pieces_free)
    have "entry_ok (k, if k = ''on'' \<or> k = ''off'' then SHours (parse_custom_hours v) else SStr v)"
      using free parse_custom_hours_valid [of v] by (simp add: entry_ok_def)
    with ok kv show ?thesis by (simp add: parse_piece_def list_all_update)
  next
    case False
    then have "parse_piece sched p = sched"
      by (auto simp: parse_piece_def split: list.splits)
    with ok show ?thesis by simp
  qed
qed

lemma fold_parse_piece_ok:
  "list_all entry_ok sched \<Longrightarrow> list_all entry_ok (fold (\<lambda>piece s. parse_piece s piece) ps sched)"
  by (induction ps arbitrary: sched) (auto intro: parse_piece_ok)

lemma parse_fresh_ok: "parse_fresh s = Some sched \<Longrightarrow> list_all entry_ok sched"
proof -
  assume p: "parse_fresh s = Some sched"
  let ?s0 = "fold (\<lambda>piece s. parse_piece s piece) (split_chr CHR '';'' s) []"
  have ok0: "list_all entry_ok ?s0" by (rule fold_parse_piece_ok) simp
  have "entry_ok (''tz'', SStr DEFAULT_TZ)" by (simp add: entry_ok_def DEFAULT_TZ_def)
  with ok0 have "list_all entry_ok (AList.update ''tz'' (SStr DEFAULT_TZ) ?s0)"
    by (simp add: list_all_update)
  with ok0 p show ?thesis
    by (auto simp: parse_fresh_def Let_def split: if_splits)
qed

lemma parse_fresh_has_tz: "parse_fresh s = Some sched \<Longrightarrow> has_key sched ''tz''"
  by (auto simp: parse_fresh_def Let_def has_key_def update_conv' split: if_splits)

lemma parse_fresh_tz:
  assumes "parse_fresh s = Some sched"
  obtains z where "map_of sched ''tz'' = Some (SStr z)" and "CHR ''='' \<notin> set z"
proof -
  from assms have ok: "list_all entry_ok sched" by (rule parse_fresh_ok)
  from assms have "has_key sched ''tz''" by (rule parse_fresh_has_tz)
  then obtain v where v: "map_of sched ''tz'' = Some v" by (auto simp: has_key_def)
  then have "(''tz'', v) \<in> set sched" by (rule map_of_SomeD)
  with ok have "entry_ok (''tz'', v)" by (auto simp: list_all_iff)
  then obtain z where "v = SStr z" and "CHR ''='' \<notin> set z"
    by (cases v) (auto simp: entry_ok_def)
  with v that show ?thesis by simp
qed


lemma get_local_tz_parsed:
  assumes "map_of parsed ''tz'' = Some (SStr z)" and "CHR ''='' \<notin> set z"
  shows "get_local_tz e d [tz_part parsed] = Inr (gettz e (alias_of z))"
  using assms by (simp add: get_local_tz_def tz_part_def split_chr_free alias_of_def)

lemma parse_or_default_ok:
  assumes "cache_ok c"
  obtains parsed where
    "parse_or_default c parts = (Some parsed, snd (parse_or_default c parts))"
    and "cache_ok (snd (parse_or_default c parts))"
    and "parsed = (case parts of [] \<Rightarrow> [(''tz'', SStr DEFAULT_TZ)]
                   | p # _ \<Rightarrow> (case parse_fresh p of None \<Rightarrow> [(''tz'', SStr DEFAULT_TZ)]
                                 | Some s \<Rightarrow> s))"
proof (cases parts)
  case Nil
  have "fst (parse c []) = Some [(''tz'', SStr DEFAULT_TZ)]"
    using assms by (simp add: cache_ok_parse_fst parse_fresh_empty)
  moreover have "cache_ok (snd (parse c []))" using assms by (rule cache_ok_parse_snd)
  ultimately show ?thesis using Nil that
    by (cases "parse c []") (simp add: parse_or_default_def)
next
  case (Cons p ps)
  obtain r c' where pc: "parse c p = (r, c')" by (cases "parse c p")
  have r: "r = parse_fresh p" using cache_ok_parse_fst [OF assms, of p] pc by simp
  have c': "cache_ok c'" using cache_ok_parse_snd [OF assms, of p] pc by simp
  show ?thesis
  proof (cases r)
    case None
    have "fst (parse c' []) = Some [(''tz'', SStr DEFAULT_TZ)]"
      using c' by (simp add: cache_ok_parse_fst parse_fresh_empty)
    moreover have "cache_ok (snd (parse c' []))" using c' by (rule cache_ok_parse_snd)
    ultimately show ?thesis using Cons that pc None r
      by (cases "parse c' []") (simp add: parse_or_default_def)
  next
    case (Some s)
    then show ?thesis using Cons that pc r c'
      by (simp add: parse_or_default_def)
  qed
qed

section \<open>The evaluation of one resource\<close>

lemma parse_or_default_effective:
  assumes "cache_ok c"
  shows "fst (parse_or_default c parts) = Some (effective_schedule parts)"
    and "cache_ok (snd (parse_or_default c parts))"
proof -
  from assms obtain parsed where
    p: "parse_or_default c parts = (Some parsed, snd (parse_or_default c parts))"
    and ok: "cache_ok (snd (parse_or_default c parts))"
    and eq: "parsed = (case parts of [] \<Rightarrow> [(''tz'', SStr DEFAULT_TZ)]
                   | p # _ \<Rightarrow> (case parse_fresh p of None \<Rightarrow> [(''tz'', SStr DEFAULT_TZ)]
                                 | Some s \<Rightarrow> s))"
    by (rule parse_or_default_ok)
  from p have "fst (parse_or_default c parts) = Some parsed" by (metis fst_conv)
  with eq show "fst (parse_or_default c parts) = Some (effective_schedule parts)"
    by (simp add: effective_schedule_def)
  from ok show "cache_ok (snd (parse_or_default c parts))" .
qed

lemma effective_schedule_parsed: "\<exists>s. parse_fresh s = Some (effective_schedule parts)"
proof (cases parts)
  case Nil
  then show ?thesis using parse_fresh_empty by (auto simp: effective_schedule_def)
next
  case (Cons p ps)
  show ?thesis
  proof (cases "parse_fresh p")
    case None
    with Cons show ?thesis using parse_fresh_empty by (auto simp: effective_schedule_def)
  next
    case (Some s)
    with Cons show ?thesis by (auto simp: effective_schedule_def)
  qed
qed

lemma effective_schedule_tz:
  obtains z where "map_of (effective_schedule parts) ''tz'' = Some (SStr z)"
    and "CHR ''='' \<notin> set z"
proof -
  obtain s where "parse_fresh s = Some (effective_schedule parts)"
    using effective_schedule_parsed by blast
  then show ?thesis using that by (rule parse_fresh_tz)
qed

lemma process_current_time_result:
  assumes "cache_ok c"
  shows "fst (process_current_time v d e c parts) =
     (case gettz e (alias_of (schedule_tz (effective_schedule parts))) of
        None \<Rightarrow> Inr False
      | Some tz \<Rightarrow>
          if \<not> weekends d \<and> weekday (now_first e tz) \<in> {5, 6} then Inr False
          else if is_custom (effective_schedule parts)
          then get_custom_time v (truncate_hour (now_first e tz)) (effective_schedule parts)
          else sentinel_path v d e tz (truncate_hour (now_first e tz)))"
proof -
  obtain z where z: "map_of (effective_schedule parts) ''tz'' = Some (SStr z)"
    and free: "CHR ''='' \<notin> set z"
    by (rule effective_schedule_tz)
  from z have tz: "schedule_tz (effective_schedule parts) = z" by (simp add: schedule_tz_def)
  have loc: "get_local_tz e d [tz_part (effective_schedule parts)] = Inr (gettz e (alias_of z))"
    using z free by (rule get_local_tz_parsed)
  obtain c' where pd: "parse_or_default c parts = (Some (effective_schedule parts), c')"
    using parse_or_default_effective(1) [OF assms, of parts]
    by (cases "parse_or_default c parts") simp
  have wd: "weekday (truncate_hour t) = weekday t" for t
    by (simp add: weekday_def truncate_hour_def)
  show ?thesis
    by (simp add: process_current_time_def pd loc tz wd Let_def split: option.splits)
qed




lemma skew_loop_result:
  assumes "\<forall>k \<in> set ks. 0 \<le> h + k \<and> h + k \<le> 23"
  shows "skew_loop s h now ks = Inr (\<exists>k \<in> set ks. s\<lparr>dt_hour := h + k\<rparr> = now)"
  using assms
proof (induction ks arbitrary: s)
  case Nil
  then show ?case by simp
next
  case (Cons k ks)
  from Cons.prems have rng: "0 \<le> h + k \<and> h + k \<le> 23"
    and rest: "\<forall>k \<in> set ks. 0 \<le> h + k \<and> h + k \<le> 23" by simp_all
  from Cons.IH [OF rest, of "s\<lparr>dt_hour := h + k\<rparr>"] rng show ?case
    by (auto simp: replace_hour_def)
qed

lemma get_sentinel_time_fields:
  assumes "get_sentinel_time v d e tz = Inr s"
  shows "s = \<lparr>dt_ordinal = dt_ordinal (now_second e tz), dt_hour = dt_hour s,
              dt_minute = (case opt_minute d of None \<Rightarrow> 0 | Some m \<Rightarrow> m),
              dt_second = 0, dt_microsecond = 0\<rparr>"
  using assms
  by (cases v)
    (auto simp: get_sentinel_time_def base_sentinel_time_def replace_time_def replace_hour_def
      split: sum.splits if_splits)

lemma truncate_hour_fields:
  "truncate_hour t = \<lparr>dt_ordinal = dt_ordinal t, dt_hour = dt_hour t, dt_minute = 0,
                       dt_second = 0, dt_microsecond = 0\<rparr>"
  by (simp add: truncate_hour_def)

lemma sentinel_path_window:
  assumes sen: "get_sentinel_time v d e tz = Inr s"
    and mn: "opt_minute d = None \<or> opt_minute d = Some 0"
    and day: "dt_ordinal (now_second e tz) = dt_ordinal (now_first e tz)"
    and k: "0 \<le> skew d" "dt_hour s + skew d \<le> 23" "0 \<le> dt_hour s"
  shows "sentinel_path v d e tz (truncate_hour (now_first e tz)) =
     Inr (dt_hour s \<le> dt_hour (now_first e tz) \<and> dt_hour (now_first e tz) \<le> dt_hour s + skew d)"
proof -
  let ?now = "truncate_hour (now_first e tz)"
  let ?n = "dt_hour (now_first e tz)"
  have s: "s = \<lparr>dt_ordinal = dt_ordinal (now_first e tz), dt_hour = dt_hour s,
              dt_minute = 0, dt_second = 0, dt_microsecond = 0\<rparr>"
    using get_sentinel_time_fields [OF sen] mn day by auto
  have eq: "(s\<lparr>dt_hour := x\<rparr> = ?now) = (x = ?n)" for x
    by (subst s) (auto simp: truncate_hour_fields)
  have eq0: "(s = ?now) = (dt_hour s = ?n)"
    using eq [of "dt_hour s"] by simp
  have rng: "\<forall>j \<in> set [1 .. skew d]. 0 \<le> dt_hour s + j \<and> dt_hour s + j \<le> 23"
    using k by auto
  have loop: "skew_loop s (dt_hour s) ?now [1 .. skew d] =
      Inr (\<exists>j \<in> set [1 .. skew d]. dt_hour s + j = ?n)"
    by (simp add: skew_loop_result [OF rng] eq)
  have win: "(dt_hour s = ?n \<or> (\<exists>j \<in> set [1 .. skew d]. dt_hour s + j = ?n)) =
      (dt_hour s \<le> ?n \<and> ?n \<le> dt_hour s + skew d)"
  proof
    assume "dt_hour s = ?n \<or> (\<exists>j \<in> set [1 .. skew d]. dt_hour s + j = ?n)"
    then show "dt_hour s \<le> ?n \<and> ?n \<le> dt_hour s + skew d" using k by auto
  next
    assume b: "dt_hour s \<le> ?n \<and> ?n \<le> dt_hour s + skew d"
    show "dt_hour s = ?n \<or> (\<exists>j \<in> set [1 .. skew d]. dt_hour s + j = ?n)"
    proof (cases "dt_hour s = ?n")
      case True
      then show ?thesis by simp
    next
      case False
      with b have "?n - dt_hour s \<in> set [1 .. skew d]" by auto
      moreover have "dt_hour s + (?n - dt_hour s) = ?n" by simp
      ultimately show ?thesis by blast
    qed
  qed
  show ?thesis
  proof (cases "s = ?now")
    case True
    with eq0 k show ?thesis by (simp add: sentinel_path_def sen)
  next
    case False
    note ne = this
    show ?thesis
    proof (cases "skew d = 0")
      case True
      with ne eq0 show ?thesis by (auto simp: sentinel_path_def sen)
    next
      case False
      with ne eq0 loop win show ?thesis by (simp add: sentinel_path_def sen)
    qed
  qed
qed

lemma skew_irrelevant:
  "get_local_tz e (d\<lparr>opt_skew := k\<rparr>) ps = get_local_tz e d ps"
  "get_sentinel_time v (d\<lparr>opt_skew := k\<rparr>) e tz = get_sentinel_time v d e tz"
  "weekends (d\<lparr>opt_skew := k\<rparr>) = weekends d"
  "opt_minute (d\<lparr>opt_skew := k\<rparr>) = opt_minute d"
  by (simp_all add: get_local_tz_def get_sentinel_time_def base_sentinel_time_def weekends_def
      cong: sum.case_cong option.case_cong variant.case_cong list.case_cong if_cong)

lemma process_current_time_sentinel:
  assumes "parse_or_default c parts = (Some parsed, c')"
    and "\<not> is_custom parsed"
    and "get_local_tz e d [tz_part parsed] = Inr (Some tz)"
    and "weekends d \<or> weekday (now_first e tz) \<notin> {5, 6}"
  shows "process_current_time v d e c parts
     = (sentinel_path v d e tz (truncate_hour (now_first e tz)), c')"
proof -
  have wd: "weekday (truncate_hour t) = weekday t" for t
    by (simp add: weekday_def truncate_hour_def)
  from assms show ?thesis
    by (auto simp: process_current_time_def wd Let_def)
qed

section \<open>Custom schedules\<close>

lemma py_index_Some:
  "distinct xs \<Longrightarrow> (py_index xs x = Some k) = (k < length xs \<and> xs ! k = x)"
proof (induction xs arbitrary: k)
  case Nil
  then show ?case by simp
next
  case (Cons y ys)
  from Cons.prems have fresh: "y \<notin> set ys" and dist: "distinct ys" by simp_all
  show ?case
  proof (cases "x = y")
    case True
    have "(k < length (y # ys) \<and> (y # ys) ! k = y) = (k = 0)"
    proof (cases k)
      case 0
      then show ?thesis by simp
    next
      case (Suc j)
      have "\<not> (j < length ys \<and> ys ! j = y)" using fresh nth_mem [of j ys] by auto
      with Suc show ?thesis by simp
    qed
    with True show ?thesis by auto
  next
    case False
    show ?thesis
    proof (cases k)
      case 0
      with False show ?thesis by auto
    next
      case (Suc j)
      with False Cons.IH [OF dist, of j] show ?thesis by simp
    qed
  qed
qed

lemma distinct_VALID_DAYS: "distinct VALID_DAYS"
  by (simp add: VALID_DAYS_def)

lemma weekday_range: "0 \<le> weekday t \<and> weekday t < 7"
  by (simp add: weekday_def)

lemma day_is_today:
  assumes "d \<in> set VALID_DAYS"
  obtains k where "py_index VALID_DAYS d = Some k"
    and "(weekday now = int k) = (today_code now = d)"
proof -
  from assms obtain k where k: "k < length VALID_DAYS" "VALID_DAYS ! k = d"
    by (auto simp: in_set_conv_nth)
  then have idx: "py_index VALID_DAYS d = Some k"
    by (simp add: py_index_Some [OF distinct_VALID_DAYS])
  have len: "length VALID_DAYS = 7" by (simp add: VALID_DAYS_def)
  have w: "nat (weekday now) < length VALID_DAYS"
    using weekday_range [of now] len by (simp add: nat_less_iff)
  have "(today_code now = d) = (nat (weekday now) = k)"
    using k w distinct_VALID_DAYS by (auto simp: today_code_def nth_eq_iff_index_eq)
  also have "\<dots> = (weekday now = int k)" using weekday_range [of now] by auto
  finally have "(weekday now = int k) = (today_code now = d)" by simp
  with idx that show ?thesis by blast
qed

lemma days_loop_valid:
  "set ds \<subseteq> set VALID_DAYS \<Longrightarrow>
   days_loop now h ds = Inr (today_code now \<in> set ds \<and> dt_hour now = h)"
proof (induction ds)
  case Nil
  then show ?case by simp
next
  case (Cons d ds)
  then have "d \<in> set VALID_DAYS" by simp
  then obtain k where "py_index VALID_DAYS d = Some k"
    and "(weekday now = int k) = (today_code now = d)"
    by (rule day_is_today)
  with Cons show ?case by auto
qed

lemma rules_loop_valid:
  "list_all (\<lambda>r. set (days r) \<subseteq> set VALID_DAYS) rs \<Longrightarrow>
   rules_loop now rs = Inr (custom_match now rs)"
proof (induction rs)
  case Nil
  then show ?case by (simp add: custom_match_def)
next
  case (Cons r rs)
  from Cons.prems have "set (days r) \<subseteq> set VALID_DAYS" by simp
  then have dl: "days_loop now (hour r) (days r)
      = Inr (today_code now \<in> set (days r) \<and> dt_hour now = hour r)"
    by (rule days_loop_valid)
  from Cons have ih: "rules_loop now rs = Inr (custom_match now rs)" by simp
  show ?case
  proof (cases "today_code now \<in> set (days r) \<and> dt_hour now = hour r")
    case True
    with dl show ?thesis by (auto simp: custom_match_def)
  next
    case False
    with dl have "days_loop now (hour r) (days r) = Inr False" by simp
    with ih False show ?thesis by (auto simp: custom_match_def)
  qed
qed

lemma parsed_rules:
  assumes "parse_fresh s = Some parsed" and "k = ''on'' \<or> k = ''off''"
  shows "truthy (map_of parsed k) = (rules_of parsed k \<noteq> [])"
    and "list_all (\<lambda>r. set (days r) \<subseteq> set VALID_DAYS) (rules_of parsed k)"
    and "rules_of parsed k \<noteq> [] \<Longrightarrow> custom_rules (map_of parsed k) = Inr (rules_of parsed k)"
proof -
  from assms(1) have ok: "list_all entry_ok parsed" by (rule parse_fresh_ok)
  have *: "\<exists>hs. v = SHours hs \<and> list_all (\<lambda>r. set (days r) \<subseteq> set VALID_DAYS) hs"
    if "map_of parsed k = Some v" for v
  proof -
    from that have "(k, v) \<in> set parsed" by (rule map_of_SomeD)
    with ok have "entry_ok (k, v)" by (auto simp: list_all_iff)
    with assms(2) show ?thesis by (cases v) (auto simp: entry_ok_def)
  qed
  show "truthy (map_of parsed k) = (rules_of parsed k \<noteq> [])"
    using * by (cases "map_of parsed k") (auto simp: truthy_def rules_of_def)
  show "list_all (\<lambda>r. set (days r) \<subseteq> set VALID_DAYS) (rules_of parsed k)"
    using * by (cases "map_of parsed k") (auto simp: rules_of_def)
  show "rules_of parsed k \<noteq> [] \<Longrightarrow> custom_rules (map_of parsed k) = Inr (rules_of parsed k)"
    using * by (cases "map_of parsed k") (auto simp: rules_of_def custom_rules_def)
qed

lemma get_custom_time_parsed:
  assumes "parse_fresh s = Some parsed" and "is_custom parsed"
  shows "get_custom_time v now parsed =
     Inr (case v of
            OnHour \<Rightarrow> custom_match now (rules_of parsed ''on'')
          | OffHour \<Rightarrow> custom_match now (rules_of parsed ''off'')
          | Time \<Rightarrow> False)"
proof -
  from assms(2) have t: "truthy (map_of parsed ''on'')" "truthy (map_of parsed ''off'')"
    by (auto simp: is_custom_def split: if_splits)
  have on: "rules_of parsed ''on'' \<noteq> []" using parsed_rules(1) [OF assms(1), of "''on''"] t by simp
  have off: "rules_of parsed ''off'' \<noteq> []"
    using parsed_rules(1) [OF assms(1), of "''off''"] t by simp
  have con: "custom_rules (map_of parsed ''on'') = Inr (rules_of parsed ''on'')"
    using parsed_rules(3) [OF assms(1) _ on] by simp
  have coff: "custom_rules (map_of parsed ''off'') = Inr (rules_of parsed ''off'')"
    using parsed_rules(3) [OF assms(1) _ off] by simp
  have lon: "rules_loop now (rules_of parsed ''on'') = Inr (custom_match now (rules_of parsed ''on''))"
    using parsed_rules(2) [OF assms(1), of "''on''"] by (simp add: rules_loop_valid)
  have loff: "rules_loop now (rules_of parsed ''off'') = Inr (custom_match now (rules_of parsed ''off''))"
    using parsed_rules(2) [OF assms(1), of "''off''"] by (simp add: rules_loop_valid)
  show ?thesis by (cases v) (simp_all add: get_custom_time_def con coff lon loff)
qed

section \<open>Groups that invalidate a tag value\<close>

lemma parse_piece_lookup:
  assumes "k = ''on'' \<or> k = ''off''"
  shows "map_of (parse_piece sched p) k =
     (case last_value k [p] of
        Some v \<Rightarrow> Some (SHours (parse_custom_hours v))
      | None \<Rightarrow> map_of sched k)"
  using assms
  by (auto simp: parse_piece_def update_conv' split: list.splits)

lemma fold_parse_piece_lookup:
  assumes "k = ''on'' \<or> k = ''off''"
  shows "map_of (fold (\<lambda>piece s. parse_piece s piece) ps sched) k =
     (case last_value k ps of
        Some v \<Rightarrow> Some (SHours (parse_custom_hours v))
      | None \<Rightarrow> map_of sched k)"
proof (induction ps arbitrary: sched)
  case Nil
  then show ?case by simp
next
  case (Cons p ps)
  show ?case
  proof (cases "last_value k ps")
    case None
    with Cons [of "parse_piece sched p"] parse_piece_lookup [OF assms, of sched p]
    show ?thesis by simp
  next
    case (Some v)
    with Cons [of "parse_piece sched p"] show ?thesis by simp
  qed
qed

lemma custom_hours_loop_prefix:
  "custom_hours_loop acc gs = [] \<or> (\<exists>rest. custom_hours_loop acc gs = acc @ rest)"
proof (induction gs arbitrary: acc)
  case Nil
  then show ?case by simp
next
  case (Cons g gs)
  show ?case
  proof (cases "parse_group g")
    case None
    then show ?thesis by simp
  next
    case (Some r)
    with Cons [of "acc @ [r]"] show ?thesis by auto
  qed
qed

lemma loop_bad_acc:
  assumes "\<not> list_all is_valid_hour acc"
  shows "\<not> is_valid_hours (SHours (custom_hours_loop acc gs))"
proof -
  from custom_hours_loop_prefix [of acc gs] show ?thesis
  proof
    assume "custom_hours_loop acc gs = []"
    then show ?thesis by (simp add: is_valid_hours_def)
  next
    assume "\<exists>rest. custom_hours_loop acc gs = acc @ rest"
    then obtain rest where "custom_hours_loop acc gs = acc @ rest" by blast
    with assms show ?thesis by (simp add: is_valid_hours_def)
  qed
qed

lemma loop_bad_group:
  assumes "g \<in> set gs" and "group_fails g"
  shows "\<not> is_valid_hours (SHours (custom_hours_loop acc gs))"
  using assms(1)
proof (induction gs arbitrary: acc)
  case Nil
  then show ?case by simp
next
  case (Cons x xs)
  show ?case
  proof (cases "parse_group x")
    case None
    then show ?thesis by (simp add: is_valid_hours_def)
  next
    case (Some r)
    show ?thesis
    proof (cases "x = g")
      case True
      with Some assms(2) have "days r = []" by (simp add: group_fails_def)
      then have "\<not> list_all is_valid_hour (acc @ [r])" by (simp add: is_valid_hour_def)
      then have "\<not> is_valid_hours (SHours (custom_hours_loop (acc @ [r]) xs))"
        by (rule loop_bad_acc)
      with Some show ?thesis by simp
    next
      case False
      with Cons.prems have "g \<in> set xs" by simp
      from Cons.IH [OF this, of "acc @ [r]"] Some show ?thesis by simp
    qed
  qed
qed

lemma bad_group_invalidates:
  assumes k: "k = ''on'' \<or> k = ''off''"
    and lv: "last_value k (split_chr CHR '';'' s) = Some v"
    and g: "g \<in> set (groups_of v)"
    and bad: "group_fails g"
  shows "parse_fresh s = None"
proof -
  let ?s0 = "fold (\<lambda>piece s. parse_piece s piece) (split_chr CHR '';'' s) []"
  let ?s1 = "if \<not> has_key ?s0 ''tz'' then AList.update ''tz'' (SStr DEFAULT_TZ) ?s0 else ?s0"
  have inv: "\<not> is_valid_hours (SHours (parse_custom_hours v))"
    unfolding parse_custom_hours_def using g bad
    by (intro loop_bad_group [of g]) (simp_all add: groups_of_def)
  have "map_of ?s0 k = Some (SHours (parse_custom_hours v))"
    using fold_parse_piece_lookup [OF k, of "split_chr CHR '';'' s" "[]"] lv by simp
  moreover have "k \<noteq> ''tz''" using k by auto
  ultimately have look: "map_of ?s1 k = Some (SHours (parse_custom_hours v))"
    by (simp add: update_conv')
  have "\<not> is_valid ?s1"
  proof (cases "k = ''on''")
    case True
    with look inv show ?thesis by (simp add: is_valid_def has_key_def)
  next
    case False
    with k have "k = ''off''" by simp
    with look inv show ?thesis by (simp add: is_valid_def has_key_def)
  qed
  then show ?thesis by (simp add: parse_fresh_def Let_def)
qed

lemma malformed_group_fails: "malformed_group g \<Longrightarrow> group_fails g"
  by (auto simp: malformed_group_def group_fails_def parse_group_def group_fields_def
      days_known_def expand_day_range_def is_valid_hour_range_def VALID_HOURS_def
      split: list.splits option.splits if_splits)

lemma py_index_member: "py_index xs x = Some i \<Longrightarrow> x \<in> set xs"
  by (induction xs arbitrary: i) (auto split: if_splits)

lemma reversed_range_expands_empty:
  assumes "reversed_range d"
  shows "expand_day_range d = Some []"
proof -
  from assms obtain a b i j where sp: "split_chr CHR ''-'' d = [a, b]"
    and i: "py_index VALID_DAYS a = Some i" and j: "py_index VALID_DAYS b = Some j"
    and lt: "j < i"
    by (auto simp: reversed_range_def split: list.splits option.splits)
  from i have va: "is_valid_day a" by (auto simp: is_valid_day_def dest: py_index_member)
  from j have vb: "is_valid_day b" by (auto simp: is_valid_day_def dest: py_index_member)
  have "length d \<noteq> 1"
  proof
    assume "length d = 1"
    then obtain c where "d = [c]" by (cases d) auto
    with sp have "a = []" by (auto split: if_splits)
    with va show False by (simp add: is_valid_day_def VALID_DAYS_def)
  qed
  with sp va vb i j lt show ?thesis by (simp add: expand_day_range_def)
qed

lemma reversed_group_fails:
  assumes "group_fields g = [d, h]" and "reversed_range d"
  shows "group_fails g"
  using assms(1) reversed_range_expands_empty [OF assms(2)]
  by (auto simp: group_fails_def parse_group_def group_fields_def split: option.splits)

lemma process_current_time_weekend:
  assumes ok: "cache_ok c" and nw: "\<not> weekends d"
    and wk: "\<And>parsed tz. fst (parse_or_default c parts) = Some parsed \<Longrightarrow>
               get_local_tz e d [tz_part parsed] = Inr (Some tz) \<Longrightarrow>
               weekday (now_first e tz) \<in> {5, 6}"
  shows "fst (process_current_time v d e c parts) = Inr False"
proof -
  obtain z where z: "map_of (effective_schedule parts) ''tz'' = Some (SStr z)"
    and free: "CHR ''='' \<notin> set z"
    by (rule effective_schedule_tz)
  from z have tz: "schedule_tz (effective_schedule parts) = z" by (simp add: schedule_tz_def)
  have loc: "get_local_tz e d [tz_part (effective_schedule parts)] = Inr (gettz e (alias_of z))"
    using z free by (rule get_local_tz_parsed)
  have used: "fst (parse_or_default c parts) = Some (effective_schedule parts)"
    using ok by (rule parse_or_default_effective(1))
  show ?thesis
  proof (cases "gettz e (alias_of z)")
    case None
    then show ?thesis by (simp add: process_current_time_result [OF ok] tz)
  next
    case (Some zone)
    with loc have "get_local_tz e d [tz_part (effective_schedule parts)] = Inr (Some zone)"
      by simp
    with used have "weekday (now_first e zone) \<in> {5, 6}" by (rule wk)
    with Some nw show ?thesis by (simp add: process_current_time_result [OF ok] tz)
  qed
qed



section \<open>Claims\<close>

text \<open>
  C7. A resource whose tag value, lowercased, stripped of quotes and split at whitespace,
  has the token \<open>off\<close> among its tokens is never matched: every variant, every option
  set, every clock and every cache give \<open>False\<close>, whatever the other tokens are, and the
  cache is left as it was.
\<close>

theorem off_token_disables:
  assumes "map_of (tag_map_of i) (lower (case opt_tag d of None \<Rightarrow> DEFAULT_TAG | Some t \<Rightarrow> t))
             = Some val"
    and "''off'' \<in> set (split_ws (strip_chars [CHR 0x22] (strip_chars [CHR 0x27] (lower val))))"
  shows "filter_call v d e c i = (Inr False, c)"
  using assms by (simp add: filter_call_def get_tag_parts_def Let_def)

theorem off_token_disables_witness:
  "filter_call OnHour (no_options\<lparr>opt_opt_out := Some True\<rparr>) (clock_at monday 9) []
     (tagged ''\"OFF=(m,3);on=(m,9) Off\"'') = (Inr False, [])"
proof -
  have look: "map_of (tag_map_of (tagged ''\"OFF=(m,3);on=(m,9) Off\"''))
      (lower (case opt_tag (no_options\<lparr>opt_opt_out := Some True\<rparr>) of
                None \<Rightarrow> DEFAULT_TAG | Some t \<Rightarrow> t))
      = Some ''\"OFF=(m,3);on=(m,9) Off\"''"
    by code_simp
  have tok: "''off'' \<in> set (split_ws (strip_chars [CHR 0x22] (strip_chars [CHR 0x27]
      (lower ''\"OFF=(m,3);on=(m,9) Off\"''))))"
    by code_simp
  from off_token_disables [OF look tok] show ?thesis .
qed

text \<open>
  C9. Parsing depends on the raw text only. After any history of earlier calls from the
  empty cache of a fresh process, a call returns what a parse from scratch of that text
  computes; the call that follows it for the same text is served from the cache, returns
  the same result and leaves the cache as it is.
\<close>

theorem parse_is_deterministic:
  "fst (parse (parse_many [] history) s) = parse_fresh s \<and>
   map_of (snd (parse (parse_many [] history) s)) s = Some (parse_fresh s) \<and>
   parse (snd (parse (parse_many [] history) s)) s
     = (parse_fresh s, snd (parse (parse_many [] history) s))"
proof -
  let ?c = "parse_many [] history"
  have ok: "cache_ok ?c" by (rule cache_ok_parse_many) (rule cache_ok_Nil)
  then have first: "fst (parse ?c s) = parse_fresh s" by (rule cache_ok_parse_fst)
  have "map_of (snd (parse ?c s)) s = Some (fst (parse ?c s))"
    by (auto simp: parse_def Let_def update_conv' split: option.splits)
  with first have held: "map_of (snd (parse ?c s)) s = Some (parse_fresh s)" by simp
  from first have again: "parse (snd (parse ?c s)) s = (parse_fresh s, snd (parse ?c s))"
    by (simp add: parse_again)
  from first held again show ?thesis by simp
qed

text \<open>
  C6. With the \<open>weekends\<close> option absent or false, and the current time a Saturday or a
  Sunday in the zone that the evaluation of the resource resolves, evaluation returns
  \<open>False\<close>: for every resource, tag value (custom schedules that name \<open>s\<close> or \<open>u\<close>
  included), hour, variant and other option, from any sound cache. Other zones may read
  any day.
\<close>

theorem weekend_skip:
  assumes "cache_ok c"
    and "opt_weekends d = None \<or> opt_weekends d = Some False"
    and "\<And>parsed tz. fst (parse_or_default c (tag_tokens d i)) = Some parsed \<Longrightarrow>
           get_local_tz e d [tz_part parsed] = Inr (Some tz) \<Longrightarrow>
           weekday (now_first e tz) \<in> {5, 6}"
  shows "fst (filter_call v d e c i) = Inr False"
proof -
  from assms(2) have nw: "\<not> weekends d" by (auto simp: weekends_def)
  have pct: "fst (process_current_time v d e c (tag_tokens d i)) = Inr False"
    using assms(1) nw assms(3) by (rule process_current_time_weekend)
  show ?thesis
  proof (cases "fst (get_tag_parts d i)")
    case None
    with pct show ?thesis by (simp add: filter_call_def tag_tokens_def)
  next
    case (Some parts)
    with pct show ?thesis by (simp add: filter_call_def tag_tokens_def)
  qed
qed

theorem weekend_skip_witness:
  "fst (filter_call OffHour no_options sunday_in_los_angeles []
          (tagged ''off=(u,23);on=(m,7);tz=pt'')) = Inr False \<and>
   weekday (now_first sunday_in_los_angeles (TZ ''America/New_York'')) = 0"
proof -
  let ?i = "tagged ''off=(u,23);on=(m,7);tz=pt''"
  let ?p = "[(''off'', SHours [\<lparr>days = [''u''], hour = 23\<rparr>]),
             (''on'', SHours [\<lparr>days = [''m''], hour = 7\<rparr>]), (''tz'', SStr ''pt'')]"
  have wk: "opt_weekends no_options = None \<or> opt_weekends no_options = Some False"
    by (simp add: no_options_def)
  have used: "fst (parse_or_default [] (tag_tokens no_options ?i)) = Some ?p" by code_simp
  have loc: "get_local_tz sunday_in_los_angeles no_options [tz_part ?p]
      = Inr (Some (TZ ''America/Los_Angeles''))" by code_simp
  have day: "weekday (now_first sunday_in_los_angeles (TZ ''America/Los_Angeles'')) \<in> {5, 6}"
    by code_simp
  have res: "weekday (now_first sunday_in_los_angeles tz) \<in> {5, 6}"
    if a: "fst (parse_or_default [] (tag_tokens no_options ?i)) = Some parsed"
      and b: "get_local_tz sunday_in_los_angeles no_options [tz_part parsed] = Inr (Some tz)"
    for parsed tz
  proof -
    from a used have "parsed = ?p" by simp
    with b loc have "tz = TZ ''America/Los_Angeles''" by simp
    with day show ?thesis by simp
  qed
  have ny: "weekday (now_first sunday_in_los_angeles (TZ ''America/New_York'')) = 0"
    by code_simp
  from weekend_skip [OF cache_ok_Nil wk res, where v = OffHour] ny show ?thesis
    by (intro conjI)
qed



text \<open>
  C5. On the default sentinel path (the schedule in use is not custom, its zone resolves,
  the weekend does not skip the evaluation, the \<open>minute\<close> option is absent or 0), with a
  sentinel of hour 19 and both readings of the clock on one date: with \<open>skew\<close> 2 the
  evaluation matches exactly when the hour of the current time is 19, 20 or 21 (so not at
  18 nor at 22); with \<open>skew\<close> 0 or absent, exactly when it is 19.
\<close>

theorem sentinel_skew_window:
  assumes "parse_or_default c parts = (Some parsed, c')"
    and "\<not> is_custom parsed"
    and "get_local_tz e d [tz_part parsed] = Inr (Some tz)"
    and "weekends d \<or> weekday (now_first e tz) \<notin> {5, 6}"
    and "opt_minute d = None \<or> opt_minute d = Some 0"
    and "get_sentinel_time v d e tz = Inr s" and "dt_hour s = 19"
    and "dt_ordinal (now_second e tz) = dt_ordinal (now_first e tz)"
  shows "process_current_time v (d\<lparr>opt_skew := Some 2\<rparr>) e c parts
           = (Inr (dt_hour (now_first e tz) \<in> {19, 20, 21}), c') \<and>
         process_current_time v (d\<lparr>opt_skew := Some 0\<rparr>) e c parts
           = (Inr (dt_hour (now_first e tz) = 19), c') \<and>
         process_current_time v (d\<lparr>opt_skew := None\<rparr>) e c parts
           = (Inr (dt_hour (now_first e tz) = 19), c')"
proof -
  let ?n = "dt_hour (now_first e tz)"
  have path: "process_current_time v (d\<lparr>opt_skew := k\<rparr>) e c parts
      = (sentinel_path v (d\<lparr>opt_skew := k\<rparr>) e tz (truncate_hour (now_first e tz)), c')" for k
    using assms(1-4) by (intro process_current_time_sentinel) (simp_all add: skew_irrelevant)
  have win: "sentinel_path v (d\<lparr>opt_skew := k\<rparr>) e tz (truncate_hour (now_first e tz))
      = Inr (19 \<le> ?n \<and> ?n \<le> 19 + skew (d\<lparr>opt_skew := k\<rparr>))"
    if "0 \<le> skew (d\<lparr>opt_skew := k\<rparr>)" "skew (d\<lparr>opt_skew := k\<rparr>) \<le> 4" for k
    using sentinel_path_window [of v "d\<lparr>opt_skew := k\<rparr>" e tz s] assms(5-8) that
    by (simp add: skew_irrelevant)
  have two: "process_current_time v (d\<lparr>opt_skew := Some 2\<rparr>) e c parts
      = (Inr (?n \<in> {19, 20, 21}), c')"
  proof -
    have "(19 \<le> ?n \<and> ?n \<le> 19 + 2) = (?n \<in> {19, 20, 21})" by auto
    with win [of "Some 2"] path [of "Some 2"] show ?thesis by (simp add: skew_def)
  qed
  have zero: "process_current_time v (d\<lparr>opt_skew := Some 0\<rparr>) e c parts = (Inr (?n = 19), c')"
  proof -
    have "(19 \<le> ?n \<and> ?n \<le> 19 + 0) = (?n = 19)" by auto
    with win [of "Some 0"] path [of "Some 0"] show ?thesis by (simp add: skew_def)
  qed
  have none: "process_current_time v (d\<lparr>opt_skew := None\<rparr>) e c parts = (Inr (?n = 19), c')"
  proof -
    have "(19 \<le> ?n \<and> ?n \<le> 19 + 0) = (?n = 19)" by auto
    with win [of None] path [of None] show ?thesis by (simp add: skew_def)
  qed
  from two zero none show ?thesis by (intro conjI)
qed


theorem sentinel_skew_window_witness:
  "process_current_time OffHour (no_options\<lparr>opt_skew := Some 2\<rparr>) (clock_at monday 21) []
       [''tz=pt'']
     = (Inr True, [(''tz=pt'', Some [(''tz'', SStr ''pt'')])]) \<and>
   process_current_time OffHour (no_options\<lparr>opt_skew := Some 0\<rparr>) (clock_at monday 21) []
       [''tz=pt'']
     = (Inr False, [(''tz=pt'', Some [(''tz'', SStr ''pt'')])])"
proof -
  let ?e = "clock_at monday 21"
  let ?tz = "TZ ''America/Los_Angeles''"
  let ?c = "[(''tz=pt'', Some [(''tz'', SStr ''pt'')])]"
  let ?s = "\<lparr>dt_ordinal = monday, dt_hour = 19, dt_minute = 0, dt_second = 0,
             dt_microsecond = 0\<rparr>"
  have h1: "parse_or_default [] [''tz=pt''] = (Some [(''tz'', SStr ''pt'')], ?c)" by code_simp
  have h2: "\<not> is_custom [(''tz'', SStr ''pt'')]" by code_simp
  have h3: "get_local_tz ?e no_options [tz_part [(''tz'', SStr ''pt'')]] = Inr (Some ?tz)"
    by code_simp
  have h4: "weekends no_options \<or> weekday (now_first ?e ?tz) \<notin> {5, 6}" by code_simp
  have h5: "opt_minute no_options = None \<or> opt_minute no_options = Some 0"
    by (simp add: no_options_def)
  have h6: "get_sentinel_time OffHour no_options ?e ?tz = Inr ?s" by code_simp
  have h7: "dt_hour ?s = 19" by simp
  have h8: "dt_ordinal (now_second ?e ?tz) = dt_ordinal (now_first ?e ?tz)" by code_simp
  have n: "dt_hour (now_first ?e ?tz) = 21" by code_simp
  note w = sentinel_skew_window [OF h1 h2 h3 h4 h5 h6 h7 h8]
  from w [THEN conjunct1] w [THEN conjunct2, THEN conjunct1] show ?thesis
    by (simp add: n)
qed

text \<open>
  C1. The evaluation does let an exception out. With \<open>offhour\<close> 23 and \<open>skew\<close> 1, on a
  Monday at hour 10 and an empty tag value, the first round of the skew loop replaces
  the sentinel's hour by 24 and the \<^verbatim>\<open>ValueError\<close> of \<^verbatim>\<open>replace\<close> leaves the filter.
  The same happens with \<open>offhour\<close> 24, a value the schema of the filter admits, already
  when the sentinel is built.
\<close>

theorem skew_past_last_hour_raises:
  "fst (filter_call OffHour (no_options\<lparr>opt_offhour := Some 23, opt_skew := Some 1\<rparr>)
          (clock_at monday 10) [] (tagged [])) = Inl ValueError \<and>
   fst (filter_call OffHour (no_options\<lparr>opt_offhour := Some 24\<rparr>)
          (clock_at monday 10) [] (tagged [])) = Inl ValueError"
  by code_simp

text \<open>
  C2. The policy's \<open>default_tz\<close> is never consulted. The parser stores the global
  default code under \<open>tz\<close> when the tag has none, so the filter always hands
  \<open>get_local_tz\<close> a part that starts with \<open>tz=\<close>. With \<open>default_tz\<close> set to \<open>pt\<close> and
  an empty tag value, the zone resolved is \<open>America/New_York\<close>: at 19:30 in Los Angeles
  (22:30 in New York) the off-hour filter does not match, while a tag that says \<open>tz=pt\<close>
  itself does.
\<close>

theorem policy_default_tz_unused:
  "parse_fresh [] = Some [(''tz'', SStr ''et'')] \<and>
   get_local_tz two_zone_clock (no_options\<lparr>opt_default_tz := Some ''pt''\<rparr>)
       [tz_part [(''tz'', SStr ''et'')]] = Inr (Some (TZ ''America/New_York'')) \<and>
   fst (filter_call OffHour (no_options\<lparr>opt_default_tz := Some ''pt''\<rparr>) two_zone_clock []
          (tagged [])) = Inr False \<and>
   fst (filter_call OffHour (no_options\<lparr>opt_default_tz := Some ''pt''\<rparr>) two_zone_clock []
          (tagged ''tz=pt'')) = Inr True"
  by code_simp

text \<open>
  C3, as stated, fails: an unknown key makes the schedule dictionary hold four entries,
  and \<open>is_custom\<close> asks for exactly three. The tag value \<open>x=1;off=(m,3);on=(m,9)\<close>
  parses, with both lists non-empty, yet on a Monday at hour 9 the on-hour filter takes
  the sentinel path (default hour 7) and does not match; without \<open>x=1\<close> it matches.
\<close>

theorem extra_key_leaves_custom_path:
  "parse_fresh ''x=1;off=(m,3);on=(m,9)''
     = Some [(''x'', SStr ''1''), (''off'', SHours [\<lparr>days = [''m''], hour = 3\<rparr>]),
             (''on'', SHours [\<lparr>days = [''m''], hour = 9\<rparr>]), (''tz'', SStr ''et'')] \<and>
   \<not> is_custom [(''x'', SStr ''1''), (''off'', SHours [\<lparr>days = [''m''], hour = 3\<rparr>]),
             (''on'', SHours [\<lparr>days = [''m''], hour = 9\<rparr>]), (''tz'', SStr ''et'')] \<and>
   fst (filter_call OnHour no_options (clock_at monday 9) [] (tagged ''x=1;off=(m,3);on=(m,9)''))
     = Inr False \<and>
   fst (filter_call OnHour no_options (clock_at monday 9) [] (tagged ''off=(m,3);on=(m,9)''))
     = Inr True"
  by code_simp

text \<open>
  C3, amended. For a successfully parsed schedule in use, with its zone resolved and no
  weekend skip: when it has exactly three entries (\<open>tz\<close>, \<open>on\<close>, \<open>off\<close>) and both rule
  lists are non-empty the custom path is taken, where the on-hour variant consults the
  \<open>on\<close> list, the off-hour variant the \<open>off\<close> list and the base variant returns
  \<open>False\<close>; in every other case (no rule lists, or any further key) the default sentinel
  path is taken.
\<close>

theorem custom_path_taken:
  assumes "parse_fresh s = Some parsed"
    and "parse_or_default c parts = (Some parsed, c')"
    and "get_local_tz e d [tz_part parsed] = Inr (Some tz)"
    and "weekends d \<or> weekday (now_first e tz) \<notin> {5, 6}"
  shows "process_current_time v d e c parts =
     (if length parsed = 3 \<and> rules_of parsed ''on'' \<noteq> [] \<and> rules_of parsed ''off'' \<noteq> []
      then (Inr (case v of
                   OnHour \<Rightarrow> custom_match (truncate_hour (now_first e tz)) (rules_of parsed ''on'')
                 | OffHour \<Rightarrow> custom_match (truncate_hour (now_first e tz)) (rules_of parsed ''off'')
                 | Time \<Rightarrow> False), c')
      else (sentinel_path v d e tz (truncate_hour (now_first e tz)), c'))"
proof -
  have wd: "weekday (truncate_hour t) = weekday t" for t
    by (simp add: weekday_def truncate_hour_def)
  have ic: "is_custom parsed =
      (length parsed = 3 \<and> rules_of parsed ''on'' \<noteq> [] \<and> rules_of parsed ''off'' \<noteq> [])"
    using parsed_rules(1) [OF assms(1), of "''on''"] parsed_rules(1) [OF assms(1), of "''off''"]
    by (simp add: is_custom_def)
  show ?thesis
  proof (cases "is_custom parsed")
    case True
    from assms(2-4) True
    have "process_current_time v d e c parts
        = (get_custom_time v (truncate_hour (now_first e tz)) parsed, c')"
      by (auto simp: process_current_time_def wd Let_def)
    then have pct: "process_current_time v d e c parts =
        (Inr (case v of
                OnHour \<Rightarrow> custom_match (truncate_hour (now_first e tz)) (rules_of parsed ''on'')
              | OffHour \<Rightarrow> custom_match (truncate_hour (now_first e tz)) (rules_of parsed ''off'')
              | Time \<Rightarrow> False), c')"
      by (simp add: get_custom_time_parsed [OF assms(1) True])
    from True ic
    have cond: "length parsed = 3 \<and> rules_of parsed ''on'' \<noteq> [] \<and> rules_of parsed ''off'' \<noteq> []"
      by simp
    show ?thesis unfolding if_P [OF cond] by (rule pct)
  next
    case False
    from assms(2-4) False
    have pct: "process_current_time v d e c parts
        = (sentinel_path v d e tz (truncate_hour (now_first e tz)), c')"
      by (intro process_current_time_sentinel)
    from False ic
    have cond: "\<not> (length parsed = 3 \<and> rules_of parsed ''on'' \<noteq> [] \<and> rules_of parsed ''off'' \<noteq> [])"
      by simp
    show ?thesis unfolding if_not_P [OF cond] by (rule pct)
  qed
qed

theorem custom_path_taken_witness:
  "process_current_time OnHour no_options (clock_at monday 9) [] [''off=(m,3);on=(m-w,9)'']
     = (Inr True,
        [(''off=(m,3);on=(m-w,9)'',
          Some [(''off'', SHours [\<lparr>days = [''m''], hour = 3\<rparr>]),
                (''on'', SHours [\<lparr>days = [''m'', ''t'', ''w''], hour = 9\<rparr>]),
                (''tz'', SStr ''et'')])])"
proof -
  let ?p = "[(''off'', SHours [\<lparr>days = [''m''], hour = 3\<rparr>]),
             (''on'', SHours [\<lparr>days = [''m'', ''t'', ''w''], hour = 9\<rparr>]),
             (''tz'', SStr ''et'')]"
  let ?e = "clock_at monday 9"
  let ?tz = "TZ ''America/New_York''"
  have h1: "parse_fresh ''off=(m,3);on=(m-w,9)'' = Some ?p" by code_simp
  have h2: "parse_or_default [] [''off=(m,3);on=(m-w,9)'']
      = (Some ?p, [(''off=(m,3);on=(m-w,9)'', Some ?p)])" by code_simp
  have h3: "get_local_tz ?e no_options [tz_part ?p] = Inr (Some ?tz)" by code_simp
  have h4: "weekends no_options \<or> weekday (now_first ?e ?tz) \<notin> {5, 6}" by code_simp
  have cond: "length ?p = 3 \<and> rules_of ?p ''on'' \<noteq> [] \<and> rules_of ?p ''off'' \<noteq> []"
    by code_simp
  have m: "custom_match (truncate_hour (now_first ?e ?tz)) (rules_of ?p ''on'')" by code_simp
  note w = custom_path_taken [OF h1 h2 h3 h4, of OnHour, unfolded if_P [OF cond]]
  from w m show ?thesis by simp
qed

text \<open>
  C4, as stated, fails: the dictionary keeps the last piece of a key, so a malformed
  \<open>on=\<close> value that a later \<open>on=\<close> piece replaces does no harm. The tag value
  \<open>on=(x,7);on=(m,7);off=(m,19)\<close> has the malformed group \<open>(x,7)\<close> (unknown day code) in
  an \<open>on=\<close> value and parses to a schedule.
\<close>

theorem later_piece_overrides_malformed:
  "''on=(x,7)'' \<in> set (split_chr CHR '';'' ''on=(x,7);on=(m,7);off=(m,19)'') \<and>
   split_chr CHR ''='' ''on=(x,7)'' = [''on'', ''(x,7)''] \<and>
   ''(x,7)'' \<in> set (groups_of ''(x,7)'') \<and>
   malformed_group ''(x,7)'' \<and>
   parse_fresh ''on=(x,7);on=(m,7);off=(m,19)''
     = Some [(''on'', SHours [\<lparr>days = [''m''], hour = 7\<rparr>]),
             (''off'', SHours [\<lparr>days = [''m''], hour = 19\<rparr>]), (''tz'', SStr ''et'')] \<and>
   fst (parse [] ''on=(x,7);on=(m,7);off=(m,19)'')
     = Some [(''on'', SHours [\<lparr>days = [''m''], hour = 7\<rparr>]),
             (''off'', SHours [\<lparr>days = [''m''], hour = 19\<rparr>]), (''tz'', SStr ''et'')]"
  by code_simp

text \<open>
  C4, amended. When the \<open>on=\<close> or \<open>off=\<close> value that the parser keeps (the last piece
  with that key) has a malformed group (wrong arity, unknown day code, non-numeric
  hour, hour outside 0 to 23), parsing the whole text gives the invalid result, from
  scratch and through the cache after any history; no schedule is returned at all, so
  none with the well-formed groups only.
\<close>

theorem malformed_group_invalidates:
  assumes "k = ''on'' \<or> k = ''off''"
    and "last_value k (split_chr CHR '';'' s) = Some v"
    and "g \<in> set (groups_of v)"
    and "malformed_group g"
  shows "parse_fresh s = None \<and> fst (parse (parse_many [] history) s) = None"
proof -
  from assms(4) have "group_fails g" by (rule malformed_group_fails)
  with assms(1-3) have none: "parse_fresh s = None" by (rule bad_group_invalidates)
  have "cache_ok (parse_many [] history)" by (rule cache_ok_parse_many) (rule cache_ok_Nil)
  then have "fst (parse (parse_many [] history) s) = parse_fresh s" by (rule cache_ok_parse_fst)
  with none show ?thesis by simp
qed

theorem malformed_group_invalidates_witness:
  "parse_fresh ''off=(m-f,19),(x,10);on=(m-f,1);tz=pst'' = None \<and>
   fst (parse (parse_many [] [''tz=pt''])
          ''off=(m-f,19),(x,10);on=(m-f,1);tz=pst'') = None"
proof -
  have k: "''off'' = ''on'' \<or> ''off'' = ''off''" by simp
  have lv: "last_value ''off'' (split_chr CHR '';'' ''off=(m-f,19),(x,10);on=(m-f,1);tz=pst'')
      = Some ''(m-f,19),(x,10)''" by code_simp
  have g: "''x,10)'' \<in> set (groups_of ''(m-f,19),(x,10)'')" by code_simp
  have bad: "malformed_group ''x,10)''" by code_simp
  from malformed_group_invalidates [OF k lv g bad, of "[''tz=pt'']"] show ?thesis .
qed

text \<open>
  C10, as stated, fails for the same reason: in
  \<open>off=(f-m,19);off=(m-f,19);on=(m-f,7)\<close> the reversed range \<open>f-m\<close> stands in an \<open>off=\<close>
  value that the second \<open>off=\<close> piece replaces, and the text parses to a schedule.
\<close>

theorem later_piece_overrides_reversed:
  "''off=(f-m,19)'' \<in> set (split_chr CHR '';'' ''off=(f-m,19);off=(m-f,19);on=(m-f,7)'') \<and>
   split_chr CHR ''='' ''off=(f-m,19)'' = [''off'', ''(f-m,19)''] \<and>
   group_fields ''(f-m,19)'' = [''f-m'', ''19''] \<and>
   reversed_range ''f-m'' \<and>
   parse_fresh ''off=(f-m,19);off=(m-f,19);on=(m-f,7)''
     = Some [(''off'', SHours [\<lparr>days = [''m'', ''t'', ''w'', ''h'', ''f''], hour = 19\<rparr>]),
             (''on'', SHours [\<lparr>days = [''m'', ''t'', ''w'', ''h'', ''f''], hour = 7\<rparr>]),
             (''tz'', SStr ''et'')] \<and>
   fst (parse [] ''off=(f-m,19);off=(m-f,19);on=(m-f,7)'')
     = Some [(''off'', SHours [\<lparr>days = [''m'', ''t'', ''w'', ''h'', ''f''], hour = 19\<rparr>]),
             (''on'', SHours [\<lparr>days = [''m'', ''t'', ''w'', ''h'', ''f''], hour = 7\<rparr>]),
             (''tz'', SStr ''et'')]"
  by code_simp

text \<open>
  C10, amended. When the \<open>on=\<close> or \<open>off=\<close> value that the parser keeps (the last piece
  with that key) has a group whose days are a range \<open>a-b\<close> with \<open>a\<close> strictly after \<open>b\<close>
  in the week, the range expands to the empty list, never wrapping around the week, and
  parsing the whole text gives the invalid result, from scratch and through the cache.
\<close>

theorem reversed_range_invalidates:
  assumes "k = ''on'' \<or> k = ''off''"
    and "last_value k (split_chr CHR '';'' s) = Some v"
    and "g \<in> set (groups_of v)"
    and "group_fields g = [d, h]"
    and "reversed_range d"
  shows "expand_day_range d = Some [] \<and> parse_fresh s = None \<and>
         fst (parse (parse_many [] history) s) = None"
proof -
  from assms(5) have emp: "expand_day_range d = Some []" by (rule reversed_range_expands_empty)
  from assms(4,5) have "group_fails g" by (rule reversed_group_fails)
  with assms(1-3) have none: "parse_fresh s = None" by (rule bad_group_invalidates)
  have "cache_ok (parse_many [] history)" by (rule cache_ok_parse_many) (rule cache_ok_Nil)
  then have "fst (parse (parse_many [] history) s) = parse_fresh s" by (rule cache_ok_parse_fst)
  with emp none show ?thesis by simp
qed

theorem reversed_range_invalidates_witness:
  "expand_day_range ''f-m'' = Some [] \<and>
   parse_fresh ''off=(f-m,19);on=(m-f,7)'' = None \<and>
   fst (parse (parse_many [] [''off=(m-f,19);on=(m-f,7)'']) ''off=(f-m,19);on=(m-f,7)'') = None"
proof -
  have k: "''off'' = ''on'' \<or> ''off'' = ''off''" by simp
  have lv: "last_value ''off'' (split_chr CHR '';'' ''off=(f-m,19);on=(m-f,7)'')
      = Some ''(f-m,19)''" by code_simp
  have g: "''(f-m,19)'' \<in> set (groups_of ''(f-m,19)'')" by code_simp
  have f: "group_fields ''(f-m,19)'' = [''f-m'', ''19'']" by code_simp
  have r: "reversed_range ''f-m''" by code_simp
  from reversed_range_invalidates [OF k lv g f r, of "[''off=(m-f,19);on=(m-f,7)'']"]
  show ?thesis .
qed

end
